theory Spec2Isabelle
  imports Main
begin

section \<open>Python values and string helpers\<close>

text \<open>
  The exceptions the modelled functions can let escape. A function that may raise returns
  \<open>exn + 'a\<close>, with \<open>Inl\<close> for the exception.
\<close>

datatype exn = KeyError | ValueError | TypeError | IndexError | IOError | ImportError | OtherError

text \<open>
  Python's \<open>str.isspace\<close> on a byte string: tab, line feed, vertical tab, form feed,
  carriage return and space.
\<close>

definition isspace :: "char \<Rightarrow> bool" where
  "isspace c = (c \<in> {CHR 0x09, CHR 0x0A, CHR 0x0B, CHR 0x0C, CHR 0x0D, CHR '' ''})"

text \<open>\<open>s.strip()\<close>: drop the whitespace at both ends.\<close>

definition strip :: "string \<Rightarrow> string" where
  "strip s = rev (dropWhile isspace (rev (dropWhile isspace s)))"

text \<open>
  \<open>s.split(sep)\<close> for a one-character separator: every occurrence of the separator
  cuts, so the result always has one more element than there are separators; the empty
  string gives \<open>['']\<close>. The result is never empty, so the second case below is the only
  one that is taken.
\<close>

fun split_on :: "char \<Rightarrow> string \<Rightarrow> string list" where
  "split_on sep [] = [[]]"
| "split_on sep (c # cs) =
     (if c = sep then [] # split_on sep cs
      else (case split_on sep cs of
              [] \<Rightarrow> [[c]]
            | w # ws \<Rightarrow> (c # w) # ws))"

text \<open>\<open>s.split(sep, 1)\<close> when \<open>sep\<close> occurs in \<open>s\<close>: the text before and after the first one.\<close>

definition split_first :: "char \<Rightarrow> string \<Rightarrow> string \<times> string" where
  "split_first sep s = (takeWhile (\<lambda>c. c \<noteq> sep) s, drop 1 (dropWhile (\<lambda>c. c \<noteq> sep) s))"

text \<open>
  \<open>s.partition(sep)\<close> for a one-character separator: the text before the first separator,
  the separator if there is one, and the text after it.
\<close>

definition str_partition :: "string \<Rightarrow> char \<Rightarrow> string \<times> string \<times> string" where
  "str_partition s sep =
     (takeWhile (\<lambda>c. c \<noteq> sep) s,
      (if sep \<in> set s then [sep] else []),
      drop 1 (dropWhile (\<lambda>c. c \<noteq> sep) s))"

text \<open>\<open>s.startswith(p)\<close>.\<close>

definition startswith :: "string \<Rightarrow> string \<Rightarrow> bool" where
  "startswith s p = (take (length p) s = p)"

text \<open>\<open>sep.join(xs)\<close>.\<close>

fun str_join :: "string \<Rightarrow> string list \<Rightarrow> string" where
  "str_join sep [] = []"
| "str_join sep [x] = x"
| "str_join sep (x # y # ys) = x @ sep @ str_join sep (y # ys)"

text \<open>
  Modelled from the spec: \<open>partition\<close>, the helper that \<open>parse_arguments\<close> calls on every
  argspec, is defined nowhere in the sources. The spec says that each argspec is split on the
  first \<open>=\<close> into the key on the left and the value on the right; the result is that of
  \<open>str.partition\<close>, which \<open>load_settings\<close> uses for the same purpose.
\<close>

definition partition_str :: "string \<Rightarrow> char \<Rightarrow> string \<times> string \<times> string" where
  "partition_str s sep = str_partition s sep"

section \<open>parse_arguments\<close>

text \<open>
  A dictionary with string keys and string values, and the tuple
  \<open>(cmd, cmd_args, cmd_kwargs, cmd_hosts)\<close> that \<open>parse_arguments\<close> appends for each token.
\<close>

type_synonym strdict = "string \<rightharpoonup> string"

type_synonym invocation = "string \<times> string list \<times> strdict \<times> string list"

text \<open>
  The expression \<open>v % ENV\<close> uses two things that the sources do not define: the global
  \<open>ENV\<close> and Python's string formatting operator. Both are parameters of the model:
  \<open>ENV\<close> is a dictionary, and \<open>pct v ENV\<close> is the result of \<open>v % ENV\<close>, either the
  formatted string or the exception that the operator raises (a missing key, an incomplete
  format).
\<close>

type_synonym percent = "string \<Rightarrow> strdict \<Rightarrow> exn + string"

text \<open>
  The body of the inner loop, for one argspec \<open>cmd_arg_kv\<close>, on the three accumulators
  \<open>cmd_args\<close>, \<open>cmd_kwargs\<close> and \<open>cmd_hosts\<close>. \<open>x or k\<close> on strings is \<open>k\<close> exactly
  when \<open>x\<close> is empty.
\<close>

definition arg_step ::
  "percent \<Rightarrow> strdict \<Rightarrow> string list \<times> strdict \<times> string list \<Rightarrow> string
     \<Rightarrow> exn + string list \<times> strdict \<times> string list" where
  "arg_step pct ENV st cmd_arg_kv =
     (case st of (cmd_args, cmd_kwargs, cmd_hosts) \<Rightarrow>
      (case partition_str cmd_arg_kv CHR ''='' of (k, _, v) \<Rightarrow>
        if v \<noteq> [] then
          if k \<in> set [''host'', ''hosts''] then
            if k = ''host'' then Inr (cmd_args, cmd_kwargs, [strip v])
            else if k = ''hosts'' then
              Inr (cmd_args, cmd_kwargs, map strip (split_on CHR '';'' v))
            else Inr (cmd_args, cmd_kwargs, cmd_hosts)
          else
            (case pct v ENV of
               Inl e \<Rightarrow> Inl e
             | Inr x \<Rightarrow> Inr (cmd_args, cmd_kwargs(k \<mapsto> (if x \<noteq> [] then x else k)), cmd_hosts))
        else Inr (cmd_args @ [k], cmd_kwargs, cmd_hosts)))"

text \<open>The inner loop over the argspecs; an exception leaves it at once.\<close>

fun arg_loop ::
  "percent \<Rightarrow> strdict \<Rightarrow> string list \<Rightarrow> string list \<times> strdict \<times> string list
     \<Rightarrow> exn + string list \<times> strdict \<times> string list" where
  "arg_loop pct ENV [] st = Inr st"
| "arg_loop pct ENV (a # as) st =
     (case arg_step pct ENV st a of
        Inl e \<Rightarrow> Inl e
      | Inr st' \<Rightarrow> arg_loop pct ENV as st')"

text \<open>The body of the outer loop: the tuple for one token \<open>cmd\<close>.\<close>

definition parse_cmd :: "percent \<Rightarrow> strdict \<Rightarrow> string \<Rightarrow> exn + invocation" where
  "parse_cmd pct ENV cmd =
     (if CHR '':'' \<in> set cmd then
        (case split_first CHR '':'' cmd of (cmd', cmd_str_args) \<Rightarrow>
          (case arg_loop pct ENV (split_on CHR '','' cmd_str_args) ([], Map.empty, []) of
             Inl e \<Rightarrow> Inl e
           | Inr (cmd_args, cmd_kwargs, cmd_hosts) \<Rightarrow>
               Inr (cmd', cmd_args, cmd_kwargs, cmd_hosts)))
      else Inr (cmd, [], Map.empty, []))"

text \<open>The outer loop: one tuple for each token, in order.\<close>

fun parse_arguments :: "percent \<Rightarrow> strdict \<Rightarrow> string list \<Rightarrow> exn + invocation list" where
  "parse_arguments pct ENV [] = Inr []"
| "parse_arguments pct ENV (cmd # args) =
     (case parse_cmd pct ENV cmd of
        Inl e \<Rightarrow> Inl e
      | Inr c \<Rightarrow>
          (case parse_arguments pct ENV args of
             Inl e \<Rightarrow> Inl e
           | Inr cmds \<Rightarrow> Inr (c # cmds)))"

text \<open>
  The operands of \<open>%\<close>. The loop body reaches \<open>v % ENV\<close> on one path only: the value \<open>v\<close>
  is not empty and the key is neither \<open>host\<close> nor \<open>hosts\<close>. \<open>formatted_step\<close> follows the
  tests of the loop body and gives the value that an argspec has formatted, as a list of one
  element, or the empty list when the argspec reaches no formatting.
\<close>

definition formatted_step :: "string \<Rightarrow> string list" where
  "formatted_step cmd_arg_kv =
     (case partition_str cmd_arg_kv CHR ''='' of (k, _, v) \<Rightarrow>
        if v \<noteq> [] then
          if k \<in> set [''host'', ''hosts''] then [] else [v]
        else [])"

text \<open>The same for one token \<open>cmd\<close>, over its argspecs in order, and for a list of tokens.\<close>

definition formatted_cmd :: "string \<Rightarrow> string list" where
  "formatted_cmd cmd =
     (if CHR '':'' \<in> set cmd then
        (case split_first CHR '':'' cmd of (cmd', cmd_str_args) \<Rightarrow>
           concat (map formatted_step (split_on CHR '','' cmd_str_args)))
      else [])"

definition formatted_args :: "string list \<Rightarrow> string list" where
  "formatted_args args = concat (map formatted_cmd args)"

section \<open>Paths and the file system\<close>

text \<open>
  The functions of \<open>os.path\<close> that the sources call, as \<open>posixpath\<close> defines them.
  \<open>os_path_join a b\<close> is \<open>os.path.join(a, b)\<close>.
\<close>

definition os_path_join :: "string \<Rightarrow> string \<Rightarrow> string" where
  "os_path_join a b =
     (if startswith b ''/'' then b
      else if a = [] \<or> last a = CHR ''/'' then a @ b
      else a @ ''/'' @ b)"

text \<open>
  \<open>os.path.split(p)\<close>: the tail is what follows the last slash; the head is what precedes
  it, without its trailing slashes unless it consists of slashes only.
\<close>

definition os_path_split :: "string \<Rightarrow> string \<times> string" where
  "os_path_split p =
     (let head = rev (dropWhile (\<lambda>c. c \<noteq> CHR ''/'') (rev p));
          tail = rev (takeWhile (\<lambda>c. c \<noteq> CHR ''/'') (rev p))
      in if head \<noteq> [] \<and> head \<noteq> replicate (length head) CHR ''/''
         then (rev (dropWhile (\<lambda>c. c = CHR ''/'') (rev head)), tail)
         else (head, tail))"

text \<open>
  \<open>os.path.splitext(p)\<close>: the extension starts at the last dot of the last component, unless
  only dots precede it there.
\<close>

definition os_path_splitext :: "string \<Rightarrow> string \<times> string" where
  "os_path_splitext p =
     (let name = rev (takeWhile (\<lambda>c. c \<noteq> CHR ''/'') (rev p));
          ext = rev (takeWhile (\<lambda>c. c \<noteq> CHR ''.'') (rev name));
          stem = rev (drop 1 (dropWhile (\<lambda>c. c \<noteq> CHR ''.'') (rev name)))
      in if CHR ''.'' \<in> set name \<and> (\<exists>c \<in> set stem. c \<noteq> CHR ''.'')
         then (take (length p - length ext - 1) p, CHR ''.'' # ext)
         else (p, []))"

text \<open>
  \<open>os.path.normpath(path)\<close>. The loop over the components keeps the list \<open>new_comps\<close>;
  \<open>initial_slashes\<close> is 0, 1 or 2.
\<close>

definition normpath_step :: "nat \<Rightarrow> string list \<Rightarrow> string \<Rightarrow> string list" where
  "normpath_step initial_slashes new_comps cmp =
     (if cmp = [] \<or> cmp = ''.'' then new_comps
      else if cmp \<noteq> ''..'' \<or> (initial_slashes = 0 \<and> new_comps = [])
              \<or> (new_comps \<noteq> [] \<and> last new_comps = ''..'')
           then new_comps @ [cmp]
      else if new_comps \<noteq> [] then butlast new_comps
      else new_comps)"

definition normpath :: "string \<Rightarrow> string" where
  "normpath path =
     (if path = [] then ''.''
      else
        let initial_slashes =
              (if startswith path ''/'' then
                 (if startswith path ''//'' \<and> \<not> startswith path ''///'' then 2 else 1)
               else 0);
            comps = foldl (normpath_step initial_slashes) [] (split_on CHR ''/'' path);
            path' = replicate initial_slashes CHR ''/'' @ str_join ''/'' comps
        in if path' = [] then ''.'' else path')"

text \<open>
  The file system: the working directory of the process, and the files and directories that
  exist, under their absolute normalised paths. A file holds its text.
\<close>

datatype node = File string | Dir

record filesystem =
  cwd :: string
  nodes :: "string \<rightharpoonup> node"

text \<open>
  \<open>os.path.abspath(path)\<close>, \<open>os.path.exists(path)\<close>. The file system is a table from
  normalised absolute paths to nodes, without symbolic links, and a path exists when its
  normalised absolute form is in the table. This is the answer of the system call for a
  non-empty path that has no trailing slash and whose \<open>..\<close> components follow directories
  of the table; outside these (the empty path, \<open>file/\<close>, \<open>missing/../file\<close>) the system call
  says no where the table lookup may say yes.
\<close>

definition os_path_abspath :: "filesystem \<Rightarrow> string \<Rightarrow> string" where
  "os_path_abspath fs path =
     normpath (if startswith path ''/'' then path else os_path_join (cwd fs) path)"

definition os_path_exists :: "filesystem \<Rightarrow> string \<Rightarrow> bool" where
  "os_path_exists fs path = (nodes fs (os_path_abspath fs path) \<noteq> None)"

text \<open>
  Iterating over a file opened for reading gives its lines, each with its line feed (the
  last line has one only if the file ends with one). Opening a directory, or a path that
  does not exist, raises \<open>IOError\<close>.
\<close>

fun file_lines :: "string \<Rightarrow> string list" where
  "file_lines [] = []"
| "file_lines (c # cs) =
     (if c = CHR 0x0A then [c] # file_lines cs
      else (case file_lines cs of
              [] \<Rightarrow> [[c]]
            | l # ls \<Rightarrow> (c # l) # ls))"

definition open_read :: "filesystem \<Rightarrow> string \<Rightarrow> exn + string list" where
  "open_read fs path =
     (case nodes fs (os_path_abspath fs path) of
        Some (File text) \<Rightarrow> Inr (file_lines text)
      | Some Dir \<Rightarrow> Inl IOError
      | None \<Rightarrow> Inl IOError)"

section \<open>load_settings\<close>

text \<open>The filter \<open>comments\<close>: a string passes when it is not empty and does not start with \<open>#\<close>.\<close>

definition comments :: "string \<Rightarrow> bool" where
  "comments s = (s \<noteq> [] \<and> \<not> startswith s ''#'')"

text \<open>
  \<open>dict(pairs)\<close> stores the pairs in order, so that a later pair replaces an earlier one
  with the same key.
\<close>

definition dict_of :: "(string \<times> string) list \<Rightarrow> strdict" where
  "dict_of kvs = foldl (\<lambda>d (k, v). d(k \<mapsto> v)) Map.empty kvs"

text \<open>The pair that one line of the settings file gives.\<close>

definition setting_of :: "string \<Rightarrow> string \<times> string" where
  "setting_of s = (case str_partition s CHR ''='' of (k, _, v) \<Rightarrow> (strip k, strip v))"

text \<open>
  \<open>load_settings\<close> has a \<open>return\<close> only under \<open>if os.path.exists(path)\<close>; on a path that
  does not exist the function ends without one and its value is Python's \<open>None\<close>, here
  the \<open>None\<close> of the option type.
\<close>

definition load_settings :: "filesystem \<Rightarrow> string \<Rightarrow> exn + strdict option" where
  "load_settings fs path =
     (if os_path_exists fs path then
        (case open_read fs path of
           Inl e \<Rightarrow> Inl e
         | Inr ls \<Rightarrow>
             (let settings = filter comments ls
              in Inr (Some (dict_of (map setting_of settings)))))
      else Inr None)"

text \<open>The dictionary \<open>env\<close> of \<open>state.py\<close>, as it is when \<open>main\<close> starts.\<close>

definition state_env :: strdict where
  "state_env = [''version'' \<mapsto> ''0.2.0'', ''settings_file'' \<mapsto> ''.fabricrc'']"

text \<open>
  \<open>env.update(load_settings(rc_path()))\<close> in \<open>main\<close>: \<open>dict.update\<close> raises \<open>TypeError\<close>
  when its argument is \<open>None\<close>.
\<close>

definition env_update :: "strdict \<Rightarrow> strdict option \<Rightarrow> exn + strdict" where
  "env_update env arg = (case arg of None \<Rightarrow> Inl TypeError | Some d \<Rightarrow> Inr (env ++ d))"

definition main_load_settings :: "filesystem \<Rightarrow> strdict \<Rightarrow> string \<Rightarrow> exn + strdict" where
  "main_load_settings fs env rc_path =
     (case load_settings fs rc_path of
        Inl e \<Rightarrow> Inl e
      | Inr r \<Rightarrow> env_update env r)"

section \<open>find_fabfile\<close>

definition guesses :: "string list" where
  "guesses = [''fabfile.py'', ''Fabfile.py'']"

text \<open>
  The \<open>while\<close> loop, on the variable \<open>path\<close>. The inner \<open>Some\<close> is a returned path, the
  inner \<open>None\<close> is Python's \<open>None\<close> when the loop ends without a \<open>return\<close>; the outer option
  is \<open>None\<close> where the loop does not end.
\<close>

partial_function (option) find_fabfile_loop :: "filesystem \<Rightarrow> string \<Rightarrow> string option option" where
  "find_fabfile_loop fs path =
     (if snd (os_path_split (os_path_abspath fs path)) \<noteq> [] then
        (case filter (\<lambda>x. os_path_exists fs (os_path_join path x)) guesses of
           x # _ \<Rightarrow> Some (Some (os_path_abspath fs (os_path_join path x)))
         | [] \<Rightarrow> find_fabfile_loop fs (os_path_join ''..'' path))
      else Some None)"

declare find_fabfile_loop.simps [code]

definition find_fabfile :: "filesystem \<Rightarrow> string option option" where
  "find_fabfile fs = find_fabfile_loop fs ''.''"

section \<open>load_fabfile\<close>

text \<open>
  An object of an imported module is callable or not; a module is the dictionary of its
  top-level names, \<open>vars(imported)\<close>.
\<close>

datatype pyobj = Callable nat | NonCallable nat

fun callable :: "pyobj \<Rightarrow> bool" where
  "callable (Callable _) = True"
| "callable (NonCallable _) = False"

type_synonym pymodule = "string \<rightharpoonup> pyobj"

text \<open>
  \<open>__import__(name)\<close> runs the code of the module that it finds by searching \<open>sys.path\<close>:
  it may raise, and the code it runs may itself change \<open>sys.path\<close>. It is a parameter of the
  model: from the name and the current \<open>sys.path\<close> it gives the module or the exception, and
  the \<open>sys.path\<close> that it leaves.
\<close>

type_synonym importer = "string \<Rightarrow> string list \<Rightarrow> (exn + pymodule) \<times> string list"

text \<open>
  \<open>load_fabfile\<close> on the global \<open>sys.path\<close>: the result, and \<open>sys.path\<close> when the function
  returns or raises. \<open>del sys.path[0]\<close> raises \<open>IndexError\<close> on an empty list.
\<close>

definition load_fabfile ::
  "importer \<Rightarrow> string list \<Rightarrow> string \<Rightarrow> (exn + pymodule) \<times> string list" where
  "load_fabfile imp sys_path path =
     (case os_path_split path of (directory, fabfile) \<Rightarrow>
        let added_to_path = (directory \<notin> set sys_path);
            sys_path1 = (if added_to_path then directory # sys_path else sys_path)
        in (case imp (fst (os_path_splitext fabfile)) sys_path1 of
              (Inl e, sys_path2) \<Rightarrow> (Inl e, sys_path2)
            | (Inr imported, sys_path2) \<Rightarrow>
                if added_to_path then
                  (case sys_path2 of
                     [] \<Rightarrow> (Inl IndexError, sys_path2)
                   | _ # sys_path3 \<Rightarrow>
                       (Inr (\<lambda>n. case imported n of
                                    Some x \<Rightarrow> if callable x then Some x else None
                                  | None \<Rightarrow> None), sys_path3))
                else
                  (Inr (\<lambda>n. case imported n of
                               Some x \<Rightarrow> if callable x then Some x else None
                             | None \<Rightarrow> None), sys_path2)))"

section \<open>Properties of parse_arguments\<close>

subsection \<open>The pieces of a token\<close>

lemma partition_str_key_eq:
  "CHR ''='' \<notin> set k \<Longrightarrow> partition_str (k @ CHR ''='' # v) CHR ''='' = (k, ''='', v)"
  by (induction k) (auto simp: partition_str_def str_partition_def)

lemma partition_str_no_eq:
  "CHR ''='' \<notin> set s \<Longrightarrow> partition_str s CHR ''='' = (s, [], [])"
  by (induction s) (auto simp: partition_str_def str_partition_def)

lemma split_first_colon:
  "CHR '':'' \<notin> set n \<Longrightarrow> split_first CHR '':'' (n @ CHR '':'' # s) = (n, s)"
  by (induction n) (auto simp: split_first_def)

lemma split_on_no_sep: "sep \<notin> set s \<Longrightarrow> split_on sep s = [s]"
  by (induction s) auto

text \<open>What the loop body does on each form of argspec.\<close>

lemma arg_step_bareword:
  "CHR ''='' \<notin> set s \<Longrightarrow>
   arg_step pct ENV (cmd_args, cmd_kwargs, cmd_hosts) s
     = Inr (cmd_args @ [s], cmd_kwargs, cmd_hosts)"
  by (simp add: arg_step_def partition_str_no_eq)


lemma arg_step_host:
  "v \<noteq> [] \<Longrightarrow>
   arg_step pct ENV (cmd_args, cmd_kwargs, cmd_hosts) (''host='' @ v)
     = Inr (cmd_args, cmd_kwargs, [strip v])"
  using partition_str_key_eq[of "''host''" v] by (simp add: arg_step_def)

lemma arg_step_hosts:
  "v \<noteq> [] \<Longrightarrow>
   arg_step pct ENV (cmd_args, cmd_kwargs, cmd_hosts) (''hosts='' @ v)
     = Inr (cmd_args, cmd_kwargs, map strip (split_on CHR '';'' v))"
  using partition_str_key_eq[of "''hosts''" v] by (simp add: arg_step_def)

lemma arg_step_keyword:
  "CHR ''='' \<notin> set k \<Longrightarrow> k \<noteq> ''host'' \<Longrightarrow> k \<noteq> ''hosts'' \<Longrightarrow> v \<noteq> [] \<Longrightarrow>
   arg_step pct ENV (cmd_args, cmd_kwargs, cmd_hosts) (k @ ''='' @ v)
     = (case pct v ENV of
          Inl e \<Rightarrow> Inl e
        | Inr x \<Rightarrow> Inr (cmd_args, cmd_kwargs(k \<mapsto> (if x \<noteq> [] then x else k)), cmd_hosts))"
  using partition_str_key_eq[of k v] by (simp add: arg_step_def)

lemma parse_cmd_colon:
  "CHR '':'' \<notin> set n \<Longrightarrow>
   parse_cmd pct ENV (n @ CHR '':'' # s)
     = (case arg_loop pct ENV (split_on CHR '','' s) ([], Map.empty, []) of
          Inl e \<Rightarrow> Inl e
        | Inr (cmd_args, cmd_kwargs, cmd_hosts) \<Rightarrow> Inr (n, cmd_args, cmd_kwargs, cmd_hosts))"
  using split_first_colon[of n s] by (simp add: parse_cmd_def)

text \<open>A token with a single argspec.\<close>

lemma parse_cmd_single:
  "CHR '':'' \<notin> set cmd \<Longrightarrow> CHR '','' \<notin> set s \<Longrightarrow>
   parse_cmd pct ENV (cmd @ CHR '':'' # s)
     = (case arg_step pct ENV ([], Map.empty, []) s of
          Inl e \<Rightarrow> Inl e
        | Inr (cmd_args, cmd_kwargs, cmd_hosts) \<Rightarrow> Inr (cmd, cmd_args, cmd_kwargs, cmd_hosts))"
  by (simp add: parse_cmd_colon split_on_no_sep split: sum.splits)

lemma takeWhile_absent: "x \<notin> set xs \<Longrightarrow> takeWhile (\<lambda>c. c \<noteq> x) xs = xs"
  by (induction xs) auto

subsection \<open>A host key without a value\<close>



subsection \<open>The keys host and hosts never reach the keyword arguments\<close>

text \<open>The loop body keeps both keys out of \<open>cmd_kwargs\<close>, and so do the loops.\<close>

lemma arg_step_no_host_key:
  "arg_step pct ENV (a, kw, hs) s = Inr (a', kw', hs') \<Longrightarrow>
   kw ''host'' = None \<Longrightarrow> kw ''hosts'' = None \<Longrightarrow>
   kw' ''host'' = None \<and> kw' ''hosts'' = None"
  by (auto simp: arg_step_def split: prod.splits if_splits sum.splits)

lemma arg_loop_no_host_key:
  "arg_loop pct ENV ss (a, kw, hs) = Inr (a', kw', hs') \<Longrightarrow>
   kw ''host'' = None \<Longrightarrow> kw ''hosts'' = None \<Longrightarrow>
   kw' ''host'' = None \<and> kw' ''hosts'' = None"
proof (induction ss arbitrary: a kw hs)
  case Nil
  then show ?case by simp
next
  case (Cons s ss)
  from Cons.prems(1) obtain a1 kw1 hs1 where
    st: "arg_step pct ENV (a, kw, hs) s = Inr (a1, kw1, hs1)" and
    lp: "arg_loop pct ENV ss (a1, kw1, hs1) = Inr (a', kw', hs')"
    by (auto split: sum.splits)
  from arg_step_no_host_key[OF st Cons.prems(2,3)] Cons.IH[OF lp] show ?case by blast
qed

lemma parse_cmd_no_host_key:
  "parse_cmd pct ENV cmd = Inr (n, a, kw, hs) \<Longrightarrow> kw ''host'' = None \<and> kw ''hosts'' = None"
  by (auto simp: parse_cmd_def split: if_splits prod.splits sum.splits
      dest: arg_loop_no_host_key)

lemma parse_arguments_no_host_key:
  "parse_arguments pct ENV args = Inr cmds \<Longrightarrow> (n, a, kw, hs) \<in> set cmds \<Longrightarrow>
   kw ''host'' = None \<and> kw ''hosts'' = None"
proof (induction args arbitrary: cmds)
  case Nil
  then show ?case by simp
next
  case (Cons c args)
  from Cons.prems(1) obtain r rs where
    r: "parse_cmd pct ENV c = Inr r" and rs: "parse_arguments pct ENV args = Inr rs"
    and cmds: "cmds = r # rs"
    by (auto split: sum.splits)
  show ?case
  proof (cases "(n, a, kw, hs) = r")
    case True
    with r show ?thesis using parse_cmd_no_host_key by metis
  next
    case False
    with Cons.prems(2) cmds have "(n, a, kw, hs) \<in> set rs" by simp
    with Cons.IH[OF rs] show ?thesis .
  qed
qed

text \<open>
  C6. In every tuple that \<open>parse_arguments\<close> returns, the keyword arguments have no key
  \<open>host\<close> and no key \<open>hosts\<close>: the loop body stores a keyword argument only in the branch
  where the key is neither of the two. The test is on the exact key: an argspec \<open>Host=v\<close> or
  \<open>HOSTS=v\<close> with a value is stored as an ordinary keyword argument, under that key, and
  leaves the host list as it was.
\<close>

theorem host_keys_never_in_kwargs:
  "(parse_arguments pct ENV args = Inr cmds \<longrightarrow>
      (\<forall>(cmd, cmd_args, cmd_kwargs, cmd_hosts) \<in> set cmds.
          cmd_kwargs ''host'' = None \<and> cmd_kwargs ''hosts'' = None))
   \<and> (k \<in> {''Host'', ''HOSTS''} \<and> v \<noteq> [] \<and> pct v ENV = Inr x \<longrightarrow>
        arg_step pct ENV (cmd_args0, cmd_kwargs0, cmd_hosts0) (k @ ''='' @ v)
          = Inr (cmd_args0, cmd_kwargs0(k \<mapsto> (if x \<noteq> [] then x else k)), cmd_hosts0))"
proof (intro conjI impI)
  assume "parse_arguments pct ENV args = Inr cmds"
  then show "\<forall>(cmd, cmd_args, cmd_kwargs, cmd_hosts) \<in> set cmds.
          cmd_kwargs ''host'' = None \<and> cmd_kwargs ''hosts'' = None"
    using parse_arguments_no_host_key by blast
next
  assume h: "k \<in> {''Host'', ''HOSTS''} \<and> v \<noteq> [] \<and> pct v ENV = Inr x"
  then have "CHR ''='' \<notin> set k" "k \<noteq> ''host''" "k \<noteq> ''hosts''" "v \<noteq> []" by auto
  from arg_step_keyword[OF this] h
  show "arg_step pct ENV (cmd_args0, cmd_kwargs0, cmd_hosts0) (k @ ''='' @ v)
          = Inr (cmd_args0, cmd_kwargs0(k \<mapsto> (if x \<noteq> [] then x else k)), cmd_hosts0)"
    by simp
qed

theorem host_keys_never_in_kwargs_witness:
  "parse_arguments (\<lambda>v e. Inr v) Map.empty [''t:Host=a'']
     = Inr [(''t'', [], [''Host'' \<mapsto> ''a''], [])]
   \<and> [''Host'' \<mapsto> ''a''] ''host'' = None
   \<and> [''Host'' \<mapsto> ''a''] ''hosts'' = None
   \<and> arg_step (\<lambda>v e. Inr v) Map.empty ([], Map.empty, []) ''HOSTS=a;b''
       = Inr ([], [''HOSTS'' \<mapsto> ''a;b''], [])"
proof -
  let ?pct = "\<lambda>(v::string) (e::strdict). (Inr v :: exn + string)"
  have step: "arg_step ?pct Map.empty ([], Map.empty, []) ''Host=a''
      = Inr ([], [''Host'' \<mapsto> ''a''], [])"
    using arg_step_keyword[of "''Host''" "''a''" ?pct Map.empty "[]" Map.empty "[]"] by simp
  have run: "parse_arguments ?pct Map.empty [''t:Host=a'']
     = Inr [(''t'', [], [''Host'' \<mapsto> ''a''], [])]"
    using parse_cmd_colon[of "''t''" ?pct Map.empty "''Host=a''"] step by simp
  from host_keys_never_in_kwargs[of ?pct Map.empty "[''t:Host=a'']"
      "[(''t'', [], [''Host'' \<mapsto> ''a''], [])]"
      "''HOSTS''" "''a;b''" "''a;b''" "[]" Map.empty "[]"] run
  show ?thesis by simp
qed

subsection \<open>Host assignments replace one another\<close>

text \<open>
  An argspec whose key is neither \<open>host\<close> nor \<open>hosts\<close> leaves the host list alone, and the
  loop over a list of argspecs splits at any point.
\<close>

lemma arg_step_other_key_hosts:
  "fst (partition_str s CHR ''='') \<notin> {''host'', ''hosts''} \<Longrightarrow>
   arg_step pct ENV (a, kw, hs) s = Inr (a', kw', hs') \<Longrightarrow> hs' = hs"
  by (auto simp: arg_step_def split: prod.splits if_splits sum.splits)

lemma arg_loop_other_keys_hosts:
  "\<forall>s \<in> set ss. fst (partition_str s CHR ''='') \<notin> {''host'', ''hosts''} \<Longrightarrow>
   arg_loop pct ENV ss (a, kw, hs) = Inr (a', kw', hs') \<Longrightarrow> hs' = hs"
proof (induction ss arbitrary: a kw hs)
  case Nil
  then show ?case by simp
next
  case (Cons s ss)
  from Cons.prems(2) obtain a1 kw1 hs1 where
    st: "arg_step pct ENV (a, kw, hs) s = Inr (a1, kw1, hs1)" and
    lp: "arg_loop pct ENV ss (a1, kw1, hs1) = Inr (a', kw', hs')"
    by (auto split: sum.splits)
  from Cons.prems(1) have "fst (partition_str s CHR ''='') \<notin> {''host'', ''hosts''}" by simp
  from arg_step_other_key_hosts[OF this st] have "hs1 = hs" .
  moreover from Cons.prems(1) have "\<forall>s \<in> set ss. fst (partition_str s CHR ''='') \<notin> {''host'', ''hosts''}"
    by simp
  from Cons.IH[OF this lp] have "hs' = hs1" .
  ultimately show ?case by simp
qed

lemma arg_loop_append:
  "arg_loop pct ENV (xs @ ys) st =
     (case arg_loop pct ENV xs st of Inl e \<Rightarrow> Inl e | Inr st' \<Rightarrow> arg_loop pct ENV ys st')"
  by (induction xs arbitrary: st) (auto split: sum.splits)

lemma arg_loop_last_directive:
  assumes run: "arg_loop pct ENV (pre @ [d] @ post) st = Inr (a', kw', hs')"
    and step: "\<And>a kw hs. arg_step pct ENV (a, kw, hs) d = Inr (a, kw, new)"
    and post: "\<forall>s \<in> set post. fst (partition_str s CHR ''='') \<notin> {''host'', ''hosts''}"
  shows "hs' = new"
proof -
  from run obtain st1 where
    p: "arg_loop pct ENV pre st = Inr st1" and
    r: "arg_loop pct ENV ([d] @ post) st1 = Inr (a', kw', hs')"
    by (auto simp: arg_loop_append split: sum.splits)
  obtain a1 kw1 hs1 where st1: "st1 = (a1, kw1, hs1)" by (cases st1) auto
  from r st1 step[of a1 kw1 hs1] have
    "arg_loop pct ENV post (a1, kw1, new) = Inr (a', kw', hs')" by simp
  from arg_loop_other_keys_hosts[OF post this] show ?thesis .
qed

text \<open>
  What \<open>strip\<close> gives: the string without the whitespace at its two ends, and nothing else
  removed. The result does not begin or end with whitespace, and the string is the result with
  whitespace before and after it.
\<close>

lemma strip_surrounded:
  assumes l: "\<forall>c \<in> set l. isspace c" and r: "\<forall>c \<in> set r. isspace c"
    and core: "core \<noteq> []" "\<not> isspace (hd core)" "\<not> isspace (last core)"
  shows "strip (l @ core @ r) = core"
proof -
  from core obtain x xs where c: "core = x # xs" "\<not> isspace x" by (cases core) auto
  from l have "dropWhile isspace (l @ core @ r) = dropWhile isspace (core @ r)"
    by (simp add: dropWhile_append2)
  also from c have "\<dots> = core @ r" by simp
  finally have d: "dropWhile isspace (l @ core @ r) = core @ r" .
  from core have rc: "rev core \<noteq> []" "\<not> isspace (hd (rev core))" by (auto simp: hd_rev)
  then obtain y ys where y: "rev core = y # ys" "\<not> isspace y" by (cases "rev core") auto
  have "dropWhile isspace (rev r @ rev core) = dropWhile isspace (rev core)"
    by (rule dropWhile_append2) (use r in auto)
  also from y have "\<dots> = rev core" by simp
  finally have "dropWhile isspace (rev (core @ r)) = rev core" by simp
  with d show ?thesis by (simp add: strip_def)
qed

lemma strip_decomp:
  "\<exists>l r. s = l @ strip s @ r \<and> (\<forall>c \<in> set l. isspace c) \<and> (\<forall>c \<in> set r. isspace c)"
proof -
  let ?d = "dropWhile isspace s"
  have "s = takeWhile isspace s @ ?d" by simp
  moreover have "rev ?d = takeWhile isspace (rev ?d) @ dropWhile isspace (rev ?d)" by simp
  then have "?d = strip s @ rev (takeWhile isspace (rev ?d))"
    unfolding strip_def by (metis rev_append rev_rev_ident)
  ultimately have "s = takeWhile isspace s @ strip s @ rev (takeWhile isspace (rev ?d))"
    by simp
  moreover have "\<forall>c \<in> set (takeWhile isspace s). isspace c"
    by (auto dest: set_takeWhileD)
  moreover have "\<forall>c \<in> set (rev (takeWhile isspace (rev ?d))). isspace c"
    by (auto dest: set_takeWhileD)
  ultimately show ?thesis by blast
qed

lemma strip_trimmed:
  "strip s = [] \<or> (\<not> isspace (hd (strip s)) \<and> \<not> isspace (last (strip s)))"
proof (cases "strip s = []")
  case True
  then show ?thesis by simp
next
  case False
  let ?d = "dropWhile isspace s"
  let ?e = "dropWhile isspace (rev ?d)"
  from False have e: "?e \<noteq> []" by (simp add: strip_def)
  then have "\<not> isspace (hd ?e)" by (rule hd_dropWhile)
  with e have la: "\<not> isspace (last (strip s))" by (simp add: strip_def last_rev)
  from e have d: "?d \<noteq> []" by (metis dropWhile.simps(1) rev.simps(1))
  then have hd: "\<not> isspace (hd ?d)" by (rule hd_dropWhile)
  have "rev ?d = takeWhile isspace (rev ?d) @ ?e" by simp
  then have "?d = strip s @ rev (takeWhile isspace (rev ?d))"
    unfolding strip_def by (metis rev_append rev_rev_ident)
  with False have "hd ?d = hd (strip s)" by (metis hd_append2)
  with hd la False show ?thesis by simp
qed

text \<open>
  What \<open>split\<close> gives: pieces without the separator which, joined by the separator, are
  the string again.
\<close>

lemma split_on_not_Nil: "split_on sep s \<noteq> []"
  by (induction s) (auto split: list.splits)

lemma split_on_join: "str_join [sep] (split_on sep s) = s"
proof (induction s)
  case Nil
  then show ?case by simp
next
  case (Cons c cs)
  obtain w ws where w: "split_on sep cs = w # ws"
    using split_on_not_Nil[of sep cs] by (cases "split_on sep cs") auto
  with Cons show ?case by (cases ws) auto
qed

lemma split_on_pieces: "w \<in> set (split_on sep s) \<Longrightarrow> sep \<notin> set w"
proof (induction s arbitrary: w)
  case Nil
  then show ?case by simp
next
  case (Cons c cs)
  obtain x xs where x: "split_on sep cs = x # xs"
    using split_on_not_Nil[of sep cs] by (cases "split_on sep cs") auto
  show ?case
  proof (cases "c = sep")
    case True
    with Cons.prems have "w = [] \<or> w \<in> set (split_on sep cs)" by simp
    with Cons.IH show ?thesis by auto
  next
    case False
    with Cons.prems x have "w = c # x \<or> w \<in> set xs" by simp
    with False x Cons.IH[of x] Cons.IH[of w] show ?thesis by auto
  qed
qed

text \<open>
  C5. An argspec \<open>host=V\<close> with a non-empty \<open>V\<close> sets the host list to the one-element
  list of \<open>V\<close> stripped; an argspec \<open>hosts=W\<close> with a non-empty \<open>W\<close> sets it to the
  pieces of \<open>W\<close> between semicolons, each stripped. In both cases the list that was there
  is dropped, not extended. So in a token the last such argspec decides: whatever argspecs
  come before it (other \<open>host\<close> or \<open>hosts\<close> assignments among them), and when no argspec
  after it has the key \<open>host\<close> or \<open>hosts\<close>, the host list of the tuple is the one that this
  argspec gives. In particular \<open>hosts\<close> after \<open>host\<close> wins entirely.
  Stripped means trimmed: the value is whitespace, then the stripped value, then whitespace,
  and the stripped value neither begins nor ends with whitespace. The pieces of \<open>W\<close> contain
  no semicolon and, joined by semicolons, are \<open>W\<close>; each of them is trimmed in the same way.
\<close>

theorem host_assignment_replaces:
  "v \<noteq> [] \<Longrightarrow>
     arg_step pct ENV (cmd_args, cmd_kwargs, cmd_hosts) (''host='' @ v)
       = Inr (cmd_args, cmd_kwargs, [strip v])
   \<and> arg_step pct ENV (cmd_args, cmd_kwargs, cmd_hosts) (''hosts='' @ v)
       = Inr (cmd_args, cmd_kwargs, map strip (split_on CHR '';'' v))
   \<and> ((\<forall>s \<in> set post. fst (partition_str s CHR ''='') \<notin> {''host'', ''hosts''}) \<longrightarrow>
        (arg_loop pct ENV (pre @ [''host='' @ v] @ post) st = Inr (cmd_args', cmd_kwargs', cmd_hosts')
           \<longrightarrow> cmd_hosts' = [strip v])
      \<and> (arg_loop pct ENV (pre @ [''hosts='' @ v] @ post) st = Inr (cmd_args', cmd_kwargs', cmd_hosts')
           \<longrightarrow> cmd_hosts' = map strip (split_on CHR '';'' v)))
   \<and> (\<exists>l r. v = l @ strip v @ r \<and> (\<forall>c \<in> set l. isspace c) \<and> (\<forall>c \<in> set r. isspace c))
   \<and> (strip v = [] \<or> (\<not> isspace (hd (strip v)) \<and> \<not> isspace (last (strip v))))
   \<and> str_join '';'' (split_on CHR '';'' v) = v
   \<and> (\<forall>w \<in> set (split_on CHR '';'' v).
         CHR '';'' \<notin> set w
       \<and> (\<exists>l r. w = l @ strip w @ r \<and> (\<forall>c \<in> set l. isspace c) \<and> (\<forall>c \<in> set r. isspace c))
       \<and> (strip w = [] \<or> (\<not> isspace (hd (strip w)) \<and> \<not> isspace (last (strip w)))))"
proof -
  assume v: "v \<noteq> []"
  have h1: "arg_step pct ENV (a, kw, hs) (''host='' @ v) = Inr (a, kw, [strip v])" for a kw hs
    using v by (rule arg_step_host)
  have h2: "arg_step pct ENV (a, kw, hs) (''hosts='' @ v)
      = Inr (a, kw, map strip (split_on CHR '';'' v))" for a kw hs
    using v by (rule arg_step_hosts)
  have lastd: "(\<forall>s \<in> set post. fst (partition_str s CHR ''='') \<notin> {''host'', ''hosts''}) \<longrightarrow>
        (arg_loop pct ENV (pre @ [''host='' @ v] @ post) st = Inr (cmd_args', cmd_kwargs', cmd_hosts')
           \<longrightarrow> cmd_hosts' = [strip v])
      \<and> (arg_loop pct ENV (pre @ [''hosts='' @ v] @ post) st = Inr (cmd_args', cmd_kwargs', cmd_hosts')
           \<longrightarrow> cmd_hosts' = map strip (split_on CHR '';'' v))"
    using h1 h2 arg_loop_last_directive[where pct = pct and ENV = ENV and pre = pre
        and post = post and st = st and a' = cmd_args' and kw' = cmd_kwargs' and hs' = cmd_hosts']
    by blast
  have pieces: "\<forall>w \<in> set (split_on CHR '';'' v).
         CHR '';'' \<notin> set w
       \<and> (\<exists>l r. w = l @ strip w @ r \<and> (\<forall>c \<in> set l. isspace c) \<and> (\<forall>c \<in> set r. isspace c))
       \<and> (strip w = [] \<or> (\<not> isspace (hd (strip w)) \<and> \<not> isspace (last (strip w))))"
    by (intro ballI conjI split_on_pieces strip_decomp strip_trimmed)
  have joined: "str_join '';'' (split_on CHR '';'' v) = v"
    by (rule split_on_join)
  from h1 h2 lastd strip_decomp[of v] strip_trimmed[of v] joined pieces
  show ?thesis by (intro conjI)
qed

theorem host_assignment_replaces_witness:
  "'' b ; c '' \<noteq> []
   \<and> arg_step (\<lambda>v e. Inr v) Map.empty ([], Map.empty, [''a'']) ''hosts= b ; c ''
       = Inr ([], Map.empty, [''b'', ''c''])
   \<and> arg_loop (\<lambda>v e. Inr v) Map.empty [''host= a '', ''hosts= b ; c ''] ([], Map.empty, [])
       = Inr ([], Map.empty, [''b'', ''c''])
   \<and> parse_arguments (\<lambda>v e. Inr v) Map.empty [''sync:host= a ,hosts= b ; c '']
       = Inr [(''sync'', [], Map.empty, [''b'', ''c''])]
   \<and> arg_step (\<lambda>v e. Inr v) Map.empty ([], Map.empty, [''a''])
         (''host='' @ [CHR 0x09, CHR '' ''] @ ''web 1'' @ [CHR 0x0D, CHR 0x0A])
       = Inr ([], Map.empty, [''web 1''])"
proof -
  let ?pct = "\<lambda>(v::string) (e::strdict). (Inr v :: exn + string)"
  have ne: "'' b ; c '' \<noteq> []" by simp
  have vals: "map strip (split_on CHR '';'' '' b ; c '') = [''b'', ''c'']"
    by (simp add: strip_def isspace_def)
  note inst = host_assignment_replaces[OF ne, of ?pct Map.empty "[]" Map.empty "[''a'']" "[]"
      "[''host= a '']" "([], Map.empty, [])" "[]" Map.empty "[''b'', ''c'']"]
  from inst vals have s2: "arg_step ?pct Map.empty ([], Map.empty, [''a'']) ''hosts= b ; c ''
      = Inr ([], Map.empty, [''b'', ''c''])" by simp
  have s1: "arg_step ?pct Map.empty ([], Map.empty, []) ''host= a '' = Inr ([], Map.empty, [''a''])"
    using arg_step_host[of "'' a ''" ?pct Map.empty "[]" Map.empty "[]"]
    by (simp add: strip_def isspace_def)
  have lp: "arg_loop ?pct Map.empty [''host= a '', ''hosts= b ; c ''] ([], Map.empty, [])
      = Inr ([], Map.empty, [''b'', ''c''])"
    using s1 s2 by simp
  have pa: "parse_arguments ?pct Map.empty [''sync:host= a ,hosts= b ; c '']
       = Inr [(''sync'', [], Map.empty, [''b'', ''c''])]"
    using parse_cmd_colon[of "''sync''" ?pct Map.empty "''host= a ,hosts= b ; c ''"] lp by simp
  have ne2: "[CHR 0x09, CHR '' ''] @ ''web 1'' @ [CHR 0x0D, CHR 0x0A] \<noteq> []" by simp
  have val2: "strip ([CHR 0x09, CHR '' ''] @ ''web 1'' @ [CHR 0x0D, CHR 0x0A]) = ''web 1''"
    by (simp add: strip_def isspace_def)
  note inst2 = host_assignment_replaces[OF ne2, of ?pct Map.empty "[]" Map.empty "[''a'']" "[]"
      "[]" "([], Map.empty, [])" "[]" Map.empty "[]"]
  from inst2 val2 have s3: "arg_step ?pct Map.empty ([], Map.empty, [''a''])
         (''host='' @ [CHR 0x09, CHR '' ''] @ ''web 1'' @ [CHR 0x0D, CHR 0x0A])
       = Inr ([], Map.empty, [''web 1''])" by simp
  from ne s2 lp pa s3 show ?thesis by blast
qed

subsection \<open>Keyword arguments\<close>




subsection \<open>What is stripped and what is not\<close>

lemma parse_cmd_name:
  "parse_cmd pct ENV cmd = Inr (n, a, kw, hs) \<Longrightarrow> n = takeWhile (\<lambda>c. c \<noteq> CHR '':'') cmd"
  by (auto simp: parse_cmd_def split_first_def takeWhile_absent
      split: if_splits sum.splits prod.splits)




subsection \<open>When parse_arguments returns\<close>

text \<open>
  An argspec either reaches no formatting, and then the loop body returns, or it has one value
  formatted, and then the loop body raises what the formatting raises and returns when the
  formatting does.
\<close>

lemma arg_step_formatted:
  "(formatted_step s = [] \<and> (\<exists>st'. arg_step pct ENV st s = Inr st'))
   \<or> (\<exists>v. formatted_step s = [v]
          \<and> (case pct v ENV of
                Inl e \<Rightarrow> arg_step pct ENV st s = Inl e
              | Inr x \<Rightarrow> (\<exists>st'. arg_step pct ENV st s = Inr st')))"
proof -
  obtain a kw hs where st: "st = (a, kw, hs)" by (cases st)
  obtain k sep v where p: "partition_str s CHR ''='' = (k, sep, v)"
    by (cases "partition_str s CHR ''=''") auto
  show ?thesis
  proof (cases "v \<noteq> [] \<and> k \<noteq> ''host'' \<and> k \<noteq> ''hosts''")
    case True
    with p have "formatted_step s = [v]" by (simp add: formatted_step_def)
    moreover from True st p have
      "case pct v ENV of
         Inl e \<Rightarrow> arg_step pct ENV st s = Inl e
       | Inr x \<Rightarrow> (\<exists>st'. arg_step pct ENV st s = Inr st')"
      by (simp add: arg_step_def split: sum.splits)
    ultimately show ?thesis by blast
  next
    case False
    with p have "formatted_step s = []" by (auto simp: formatted_step_def)
    moreover from False st p have "\<exists>st'. arg_step pct ENV st s = Inr st'"
      by (auto simp: arg_step_def)
    ultimately show ?thesis by blast
  qed
qed

text \<open>
  So a loop raises exactly when the formatting of one of its values does, and the exception
  is that of the first such value, in the order of the argspecs and of the tokens.
\<close>

lemma find_append_raises:
  "find P (xs @ ys) = (case find P xs of Some x \<Rightarrow> Some x | None \<Rightarrow> find P ys)"
  by (induction xs) auto

lemma arg_loop_raises:
  "arg_loop pct ENV ss st = Inl e \<longleftrightarrow>
     (\<exists>v. find (\<lambda>v. isl (pct v ENV)) (concat (map formatted_step ss)) = Some v
          \<and> pct v ENV = Inl e)"
proof (induction ss arbitrary: st)
  case Nil
  show ?case by simp
next
  case (Cons s ss)
  from arg_step_formatted[of s pct ENV st] show ?case
  proof (elim disjE conjE exE)
    fix st'
    assume "formatted_step s = []" "arg_step pct ENV st s = Inr st'"
    with Cons.IH[of st'] show ?thesis by simp
  next
    fix v
    assume f: "formatted_step s = [v]"
      and c: "case pct v ENV of
                Inl e \<Rightarrow> arg_step pct ENV st s = Inl e
              | Inr x \<Rightarrow> (\<exists>st'. arg_step pct ENV st s = Inr st')"
    show ?thesis
    proof (cases "pct v ENV")
      case (Inl e')
      with c have "arg_step pct ENV st s = Inl e'" by simp
      with f Inl show ?thesis by auto
    next
      case (Inr x)
      with c obtain st' where "arg_step pct ENV st s = Inr st'" by auto
      with f Inr Cons.IH[of st'] show ?thesis by simp
    qed
  qed
qed

lemma parse_cmd_raises:
  "parse_cmd pct ENV cmd = Inl e \<longleftrightarrow>
     (\<exists>v. find (\<lambda>v. isl (pct v ENV)) (formatted_cmd cmd) = Some v \<and> pct v ENV = Inl e)"
proof (cases "CHR '':'' \<in> set cmd")
  case True
  then have "parse_cmd pct ENV cmd = Inl e \<longleftrightarrow>
      arg_loop pct ENV (split_on CHR '','' (snd (split_first CHR '':'' cmd))) ([], Map.empty, [])
        = Inl e"
    by (auto simp: parse_cmd_def split: prod.splits sum.splits)
  moreover from True have "formatted_cmd cmd
      = concat (map formatted_step (split_on CHR '','' (snd (split_first CHR '':'' cmd))))"
    by (simp add: formatted_cmd_def split: prod.splits)
  ultimately show ?thesis by (simp add: arg_loop_raises)
next
  case False
  then show ?thesis by (simp add: parse_cmd_def formatted_cmd_def)
qed

lemma parse_arguments_raises:
  "parse_arguments pct ENV args = Inl e \<longleftrightarrow>
     (\<exists>v. find (\<lambda>v. isl (pct v ENV)) (formatted_args args) = Some v \<and> pct v ENV = Inl e)"
proof (induction args)
  case Nil
  show ?case by (simp add: formatted_args_def)
next
  case (Cons c args)
  have fa: "formatted_args (c # args) = formatted_cmd c @ formatted_args args"
    by (simp add: formatted_args_def)
  show ?case
  proof (cases "parse_cmd pct ENV c")
    case (Inl e')
    with parse_cmd_raises[of pct ENV c e'] obtain v where
      "find (\<lambda>v. isl (pct v ENV)) (formatted_cmd c) = Some v" "pct v ENV = Inl e'" by auto
    with Inl fa show ?thesis by (auto simp: find_append_raises)
  next
    case (Inr t)
    have "find (\<lambda>v. isl (pct v ENV)) (formatted_cmd c) = None"
    proof (cases "find (\<lambda>v. isl (pct v ENV)) (formatted_cmd c)")
      case None
      then show ?thesis .
    next
      case (Some v)
      then have "isl (pct v ENV)" by (auto simp: find_Some_iff)
      then obtain e' where "pct v ENV = Inl e'" by (cases "pct v ENV") auto
      with Some parse_cmd_raises[of pct ENV c e'] Inr show ?thesis by auto
    qed
    with Inr fa Cons.IH show ?thesis
      by (auto simp: find_append_raises split: sum.splits)
  qed
qed

text \<open>The names of the tuples are the texts before the first colon of each token, in order.\<close>

lemma parse_arguments_names:
  "parse_arguments pct ENV args = Inr cmds \<Longrightarrow>
   map fst cmds = map (takeWhile (\<lambda>c. c \<noteq> CHR '':'')) args"
proof (induction args arbitrary: cmds)
  case Nil
  then show ?case by simp
next
  case (Cons c args)
  from Cons.prems obtain t ts where
    t: "parse_cmd pct ENV c = Inr t" and ts: "parse_arguments pct ENV args = Inr ts"
    and cmds: "cmds = t # ts"
    by (auto split: sum.splits)
  obtain n a kw hs where "t = (n, a, kw, hs)" by (cases t) auto
  with t parse_cmd_name[of pct ENV c n a kw hs] have "fst t = takeWhile (\<lambda>c. c \<noteq> CHR '':'') c"
    by simp
  with Cons.IH[OF ts] cmds show ?case by simp
qed

text \<open>\<open>parse_arguments\<close> returns exactly when the formatting of each of its values succeeds.\<close>

lemma parse_arguments_returns_iff:
  "(\<exists>cmds. parse_arguments pct ENV args = Inr cmds
        \<and> map fst cmds = map (takeWhile (\<lambda>c. c \<noteq> CHR '':'')) args)
   \<longleftrightarrow> (\<forall>v \<in> set (formatted_args args). \<exists>x. pct v ENV = Inr x)"
proof
  assume "\<exists>cmds. parse_arguments pct ENV args = Inr cmds
        \<and> map fst cmds = map (takeWhile (\<lambda>c. c \<noteq> CHR '':'')) args"
  then obtain cmds where r: "parse_arguments pct ENV args = Inr cmds" by blast
  show "\<forall>v \<in> set (formatted_args args). \<exists>x. pct v ENV = Inr x"
  proof
    fix v assume v: "v \<in> set (formatted_args args)"
    show "\<exists>x. pct v ENV = Inr x"
    proof (cases "pct v ENV")
      case (Inl e)
      with v have "\<exists>x. x \<in> set (formatted_args args) \<and> isl (pct x ENV)" by auto
      then obtain w where w: "find (\<lambda>v. isl (pct v ENV)) (formatted_args args) = Some w"
        by (cases "find (\<lambda>v. isl (pct v ENV)) (formatted_args args)") (auto simp: find_None_iff)
      then have "isl (pct w ENV)" by (auto simp: find_Some_iff)
      then obtain e' where "pct w ENV = Inl e'" by (cases "pct w ENV") auto
      with w parse_arguments_raises[of pct ENV args e'] r show ?thesis by auto
    next
      case (Inr x)
      then show ?thesis by blast
    qed
  qed
next
  assume ok: "\<forall>v \<in> set (formatted_args args). \<exists>x. pct v ENV = Inr x"
  show "\<exists>cmds. parse_arguments pct ENV args = Inr cmds
        \<and> map fst cmds = map (takeWhile (\<lambda>c. c \<noteq> CHR '':'')) args"
  proof (cases "parse_arguments pct ENV args")
    case (Inl e)
    with parse_arguments_raises[of pct ENV args e] obtain v where
      "find (\<lambda>v. isl (pct v ENV)) (formatted_args args) = Some v" "pct v ENV = Inl e" by auto
    then have "v \<in> set (formatted_args args)" "pct v ENV = Inl e"
      by (auto simp: find_Some_iff)
    with ok show ?thesis by auto
  next
    case (Inr cmds)
    with parse_arguments_names[OF Inr] show ?thesis by simp
  qed
qed

text \<open>Tokens without an equals sign have barewords only, and nothing is formatted.\<close>

lemma split_on_subset: "s \<in> set (split_on sep cs) \<Longrightarrow> set s \<subseteq> set cs"
proof (induction cs arbitrary: s)
  case Nil
  then show ?case by simp
next
  case (Cons c cs)
  show ?case
  proof (cases "c = sep")
    case True
    with Cons.prems have "s = [] \<or> s \<in> set (split_on sep cs)" by simp
    with Cons.IH show ?thesis by auto
  next
    case False
    show ?thesis
    proof (cases "split_on sep cs")
      case Nil
      with False Cons.prems show ?thesis by auto
    next
      case (Cons w ws)
      with False Cons.prems have s: "s = c # w \<or> s \<in> set ws" by simp
      from Cons have "w \<in> set (split_on sep cs)" "set ws \<subseteq> set (split_on sep cs)" by auto
      with s Cons.IH[of w] Cons.IH[of s] show ?thesis by auto
    qed
  qed
qed

lemma formatted_step_no_equals: "CHR ''='' \<notin> set s \<Longrightarrow> formatted_step s = []"
  by (simp add: formatted_step_def partition_str_no_eq)

lemma formatted_cmd_no_equals:
  assumes "CHR ''='' \<notin> set cmd"
  shows "formatted_cmd cmd = []"
proof (cases "CHR '':'' \<in> set cmd")
  case True
  have "set (snd (split_first CHR '':'' cmd)) \<subseteq> set cmd"
    by (auto simp: split_first_def dest: in_set_dropD set_dropWhileD)
  with assms have "\<forall>s \<in> set (split_on CHR '','' (snd (split_first CHR '':'' cmd))). CHR ''='' \<notin> set s"
    using split_on_subset by blast
  then have "\<forall>s \<in> set (split_on CHR '','' (snd (split_first CHR '':'' cmd))). formatted_step s = []"
    by (simp add: formatted_step_no_equals)
  with True show ?thesis by (simp add: formatted_cmd_def split: prod.splits)
next
  case False
  then show ?thesis by (simp add: formatted_cmd_def)
qed

lemma formatted_args_no_equals:
  "\<forall>cmd \<in> set args. CHR ''='' \<notin> set cmd \<Longrightarrow> formatted_args args = []"
  by (simp add: formatted_args_def formatted_cmd_no_equals)

text \<open>
  C1, as the code has it. \<open>parse_arguments\<close> has no \<open>try\<close>; the only operation in it that
  can raise is the formatting \<open>v % ENV\<close> of a keyword value. The values that a list of
  tokens has formatted are \<open>formatted_args args\<close>: the non-empty values of the argspecs whose
  key is neither \<open>host\<close> nor \<open>hosts\<close>, in order. \<open>parse_arguments\<close> returns, with one tuple for
  each token and the names in order, exactly when the formatting of each of these values
  succeeds; so it does on every token list in which no token has an equals sign. It raises
  exactly when the formatting of one of these values raises, and the exception that leaves
  \<open>parse_arguments\<close> is the one of the first such value. A token \<open>name:\<close>, with nothing
  after the colon, gives the tuple for that name with one positional argument, the empty
  string: splitting the empty string on commas gives one empty piece.
\<close>

theorem parse_arguments_returns:
  "((\<exists>cmds. parse_arguments pct ENV args = Inr cmds
         \<and> map fst cmds = map (takeWhile (\<lambda>c. c \<noteq> CHR '':'')) args)
      \<longleftrightarrow> (\<forall>v \<in> set (formatted_args args). \<exists>x. pct v ENV = Inr x))
   \<and> (parse_arguments pct ENV args = Inl e
      \<longleftrightarrow> (\<exists>v. find (\<lambda>v. isl (pct v ENV)) (formatted_args args) = Some v \<and> pct v ENV = Inl e))
   \<and> ((\<forall>cmd \<in> set args. CHR ''='' \<notin> set cmd) \<longrightarrow>
      (\<exists>cmds. parse_arguments pct ENV args = Inr cmds
         \<and> map fst cmds = map (takeWhile (\<lambda>c. c \<noteq> CHR '':'')) args))
   \<and> (CHR '':'' \<notin> set cmd \<longrightarrow>
        parse_arguments pct ENV [cmd @ '':''] = Inr [(cmd, [[]], Map.empty, [])])
   \<and> (CHR '':'' \<notin> set cmd \<and> CHR ''='' \<notin> set k \<and> k \<notin> {''host'', ''hosts''} \<and> v \<noteq> []
        \<and> CHR '','' \<notin> set (k @ v) \<and> pct v ENV = Inl e \<longrightarrow>
        parse_arguments pct ENV [cmd @ '':'' @ k @ ''='' @ v] = Inl e)"
proof (intro conjI impI)
  show "(\<exists>cmds. parse_arguments pct ENV args = Inr cmds
         \<and> map fst cmds = map (takeWhile (\<lambda>c. c \<noteq> CHR '':'')) args)
      \<longleftrightarrow> (\<forall>v \<in> set (formatted_args args). \<exists>x. pct v ENV = Inr x)"
    by (rule parse_arguments_returns_iff)
next
  show "parse_arguments pct ENV args = Inl e
      \<longleftrightarrow> (\<exists>v. find (\<lambda>v. isl (pct v ENV)) (formatted_args args) = Some v \<and> pct v ENV = Inl e)"
    by (rule parse_arguments_raises)
next
  assume "\<forall>cmd \<in> set args. CHR ''='' \<notin> set cmd"
  then have "formatted_args args = []" by (rule formatted_args_no_equals)
  with parse_arguments_returns_iff[of pct ENV args]
  show "\<exists>cmds. parse_arguments pct ENV args = Inr cmds
         \<and> map fst cmds = map (takeWhile (\<lambda>c. c \<noteq> CHR '':'')) args"
    by simp
next
  assume c: "CHR '':'' \<notin> set cmd"
  have "arg_step pct ENV ([], Map.empty, []) [] = Inr ([[]], Map.empty, [])"
    using arg_step_bareword[of "[]" pct ENV "[]" Map.empty "[]"] by simp
  with parse_cmd_single[OF c, of "[]" pct ENV]
  show "parse_arguments pct ENV [cmd @ '':''] = Inr [(cmd, [[]], Map.empty, [])]" by simp
next
  assume h: "CHR '':'' \<notin> set cmd \<and> CHR ''='' \<notin> set k \<and> k \<notin> {''host'', ''hosts''} \<and> v \<noteq> []
        \<and> CHR '','' \<notin> set (k @ v) \<and> pct v ENV = Inl e"
  then have k: "CHR ''='' \<notin> set k" "k \<noteq> ''host''" "k \<noteq> ''hosts''" "v \<noteq> []" by auto
  from h have c: "CHR '':'' \<notin> set cmd" and s: "CHR '','' \<notin> set (k @ CHR ''='' # v)" by auto
  from arg_step_keyword[OF k, of pct ENV "[]" Map.empty "[]"] h
  have "arg_step pct ENV ([], Map.empty, []) (k @ CHR ''='' # v) = Inl e" by simp
  with parse_cmd_single[OF c s, of pct ENV]
  show "parse_arguments pct ENV [cmd @ '':'' @ k @ ''='' @ v] = Inl e" by simp
qed

theorem parse_arguments_returns_witness:
  "formatted_args [''ping'', ''deploy:a,x=1,host=h,y=2''] = [''1'', ''2'']
   \<and> (\<exists>cmds. parse_arguments
                (\<lambda>v e. if v = ''%'' then Inl ValueError
                        else if v = ''%(x)s'' then Inl KeyError else Inr v)
                Map.empty [''ping'', ''deploy:a,x=1,host=h,y=2''] = Inr cmds
         \<and> map fst cmds = [''ping'', ''deploy''])
   \<and> formatted_args [''deploy:x=1,y=%(x)s'', ''stop:z=%''] = [''1'', ''%(x)s'', ''%'']
   \<and> parse_arguments
        (\<lambda>v e. if v = ''%'' then Inl ValueError
                else if v = ''%(x)s'' then Inl KeyError else Inr v)
        Map.empty [''deploy:x=1,y=%(x)s'', ''stop:z=%''] = Inl KeyError
   \<and> (\<exists>cmds. parse_arguments
                (\<lambda>v e. if v = ''%'' then Inl ValueError
                        else if v = ''%(x)s'' then Inl KeyError else Inr v)
                Map.empty [''ping'', ''deploy:a,,b:c'', '':'']  = Inr cmds
         \<and> map fst cmds = [''ping'', ''deploy'', []])
   \<and> parse_arguments
        (\<lambda>v e. if v = ''%'' then Inl ValueError
                else if v = ''%(x)s'' then Inl KeyError else Inr v)
        Map.empty [''deploy:''] = Inr [(''deploy'', [[]], Map.empty, [])]
   \<and> parse_arguments
        (\<lambda>v e. if v = ''%'' then Inl ValueError
                else if v = ''%(x)s'' then Inl KeyError else Inr v)
        Map.empty [''deploy:x=%''] = Inl ValueError"
proof -
  let ?pct = "\<lambda>(v::string) (e::strdict).
      if v = ''%'' then Inl ValueError else if v = ''%(x)s'' then Inl KeyError else Inr v"
  have f1: "formatted_args [''ping'', ''deploy:a,x=1,host=h,y=2''] = [''1'', ''2'']"
    by code_simp
  have f2: "formatted_args [''deploy:x=1,y=%(x)s'', ''stop:z=%''] = [''1'', ''%(x)s'', ''%'']"
    by code_simp
  note i1 = parse_arguments_returns[where pct = ?pct and ENV = Map.empty
      and args = "[''ping'', ''deploy:a,x=1,host=h,y=2'']" and e = ValueError
      and cmd = "''deploy''" and k = "''x''" and v = "''%''"]
  from i1 f1 have r1: "\<exists>cmds. parse_arguments ?pct Map.empty
        [''ping'', ''deploy:a,x=1,host=h,y=2''] = Inr cmds
      \<and> map fst cmds = [''ping'', ''deploy'']"
    by simp
  from i1 have r4: "parse_arguments ?pct Map.empty [''deploy:'']
      = Inr [(''deploy'', [[]], Map.empty, [])]" by simp
  from i1 have r5: "parse_arguments ?pct Map.empty [''deploy:x=%''] = Inl ValueError" by simp
  note i2 = parse_arguments_returns[where pct = ?pct and ENV = Map.empty
      and args = "[''deploy:x=1,y=%(x)s'', ''stop:z=%'']" and e = KeyError
      and cmd = "''deploy''" and k = "''x''" and v = "''%''"]
  from i2 f2 have r2: "parse_arguments ?pct Map.empty [''deploy:x=1,y=%(x)s'', ''stop:z=%'']
      = Inl KeyError"
    by simp
  note i3 = parse_arguments_returns[where pct = ?pct and ENV = Map.empty
      and args = "[''ping'', ''deploy:a,,b:c'', '':'']" and e = KeyError
      and cmd = "''deploy''" and k = "''x''" and v = "''%''"]
  have f3: "formatted_args [''ping'', ''deploy:a,,b:c'', '':''] = []"
    by code_simp
  from i3 f3 have r3: "\<exists>cmds. parse_arguments ?pct Map.empty
        [''ping'', ''deploy:a,,b:c'', '':''] = Inr cmds
      \<and> map fst cmds = [''ping'', ''deploy'', []]"
    by simp
  from f1 r1 f2 r2 r3 r4 r5 show ?thesis by blast
qed

text \<open>
  The claim as stated says that \<open>deploy:\<close> gives no positional argument. The code gives
  one, the empty string, whatever the formatting operator and the environment are.
\<close>

theorem empty_argspec_counterexample:
  "\<forall>pct ENV. parse_arguments pct ENV [''deploy:''] = Inr [(''deploy'', [[]], Map.empty, [])]"
proof (intro allI)
  fix pct ENV
  have "arg_step pct ENV ([], Map.empty, []) [] = Inr ([[]], Map.empty, [])"
    using arg_step_bareword[of "[]" pct ENV "[]" Map.empty "[]"] by simp
  then show "parse_arguments pct ENV [''deploy:''] = Inr [(''deploy'', [[]], Map.empty, [])]"
    using parse_cmd_single[of "''deploy''" "[]" pct ENV] by simp
qed

section \<open>Properties of load_settings\<close>

subsection \<open>A path that does not exist\<close>

text \<open>
  C2. The claim is that on a path that does not exist \<open>load_settings\<close> returns an empty
  mapping. The function's docstring says that it returns a dictionary, and \<open>main\<close> hands the
  result to \<open>env.update\<close>, which needs one. The code returns \<open>None\<close>: in a home directory
  without \<open>.fabricrc\<close> the result is \<open>None\<close>, and the call of \<open>env.update\<close> in \<open>main\<close> raises
  \<open>TypeError\<close>.
\<close>

theorem load_settings_missing_file:
  "load_settings \<lparr>cwd = ''/home/user'',
        nodes = [''/'' \<mapsto> Dir, ''/home'' \<mapsto> Dir, ''/home/user'' \<mapsto> Dir]\<rparr>
      ''/home/user/.fabricrc'' = Inr None
   \<and> main_load_settings \<lparr>cwd = ''/home/user'',
        nodes = [''/'' \<mapsto> Dir, ''/home'' \<mapsto> Dir, ''/home/user'' \<mapsto> Dir]\<rparr>
      state_env ''/home/user/.fabricrc'' = Inl TypeError"
proof -
  let ?fs = "\<lparr>cwd = ''/home/user'',
        nodes = [''/'' \<mapsto> Dir, ''/home'' \<mapsto> Dir, ''/home/user'' \<mapsto> Dir]\<rparr>"
  have p: "os_path_abspath ?fs ''/home/user/.fabricrc'' = ''/home/user/.fabricrc''"
    by code_simp
  have "load_settings ?fs ''/home/user/.fabricrc'' = Inr None"
    by (simp add: load_settings_def os_path_exists_def p)
  then show ?thesis by (simp add: main_load_settings_def env_update_def)
qed

subsection \<open>Comment lines\<close>

text \<open>A dictionary built from pairs has the first components as its keys.\<close>

lemma dom_foldl_update:
  "dom (foldl (\<lambda>d (k, v). d(k \<mapsto> v)) m kvs) = dom m \<union> fst ` set kvs"
  by (induction kvs arbitrary: m) (auto split: prod.splits)

lemma dom_dict_of: "dom (dict_of kvs) = fst ` set kvs"
  by (simp add: dict_of_def dom_foldl_update)

lemma fst_setting_of: "fst (setting_of s) = strip (takeWhile (\<lambda>c. c \<noteq> CHR ''='') s)"
  by (simp add: setting_of_def str_partition_def)

lemma strip_Nil: "strip [] = []"
  by (simp add: strip_def)

text \<open>
  C3, as the code has it. The test for a comment is \<open>s.startswith("#")\<close> on the line as it
  was read, with no whitespace skipped. For a settings file that exists, \<open>load_settings\<close>
  returns a mapping; every key of it is the stripped text before the first equals sign of a
  line that does not begin with \<open>#\<close>, so a line that begins with \<open>#\<close> never contributes a
  key; and every line that does not begin with \<open>#\<close> and has a character other than
  whitespace does contribute its key, also when its first such character is \<open>#\<close>.
\<close>

theorem comment_lines_ignored:
  "nodes fs (os_path_abspath fs path) = Some (File text) \<Longrightarrow>
     \<exists>m. load_settings fs path = Inr (Some m)
       \<and> (\<forall>k \<in> dom m. \<exists>s \<in> set (file_lines text).
             \<not> startswith s ''#'' \<and> k = strip (takeWhile (\<lambda>c. c \<noteq> CHR ''='') s))
       \<and> (\<forall>s \<in> set (file_lines text). \<not> startswith s ''#'' \<and> strip s \<noteq> [] \<longrightarrow>
             strip (takeWhile (\<lambda>c. c \<noteq> CHR ''='') s) \<in> dom m)"
proof -
  assume f: "nodes fs (os_path_abspath fs path) = Some (File text)"
  let ?kept = "filter comments (file_lines text)"
  let ?m = "dict_of (map setting_of ?kept)"
  from f have ls: "load_settings fs path = Inr (Some ?m)"
    by (simp add: load_settings_def os_path_exists_def open_read_def)
  have d: "dom ?m = (\<lambda>s. strip (takeWhile (\<lambda>c. c \<noteq> CHR ''='') s)) ` set ?kept"
    by (simp add: dom_dict_of image_image fst_setting_of)
  have a: "\<forall>k \<in> dom ?m. \<exists>s \<in> set (file_lines text).
             \<not> startswith s ''#'' \<and> k = strip (takeWhile (\<lambda>c. c \<noteq> CHR ''='') s)"
    unfolding d by (auto simp: comments_def)
  have b: "\<forall>s \<in> set (file_lines text). \<not> startswith s ''#'' \<and> strip s \<noteq> [] \<longrightarrow>
             strip (takeWhile (\<lambda>c. c \<noteq> CHR ''='') s) \<in> dom ?m"
    unfolding d by (auto simp: comments_def strip_Nil)
  from ls a b show ?thesis by blast
qed

theorem comment_lines_ignored_witness:
  "nodes \<lparr>cwd = ''/home/user'',
           nodes = [''/home/user/.fabricrc'' \<mapsto> File (''#x'' @ [CHR 0x0A] @ ''user = bob'' @ [CHR 0x0A])]\<rparr>
      (os_path_abspath \<lparr>cwd = ''/home/user'',
           nodes = [''/home/user/.fabricrc'' \<mapsto> File (''#x'' @ [CHR 0x0A] @ ''user = bob'' @ [CHR 0x0A])]\<rparr>
         ''/home/user/.fabricrc'')
     = Some (File (''#x'' @ [CHR 0x0A] @ ''user = bob'' @ [CHR 0x0A]))
   \<and> (\<exists>m. load_settings \<lparr>cwd = ''/home/user'',
           nodes = [''/home/user/.fabricrc'' \<mapsto> File (''#x'' @ [CHR 0x0A] @ ''user = bob'' @ [CHR 0x0A])]\<rparr>
         ''/home/user/.fabricrc'' = Inr (Some m) \<and> ''user'' \<in> dom m)"
proof -
  let ?text = "''#x'' @ [CHR 0x0A] @ ''user = bob'' @ [CHR 0x0A]"
  let ?fs = "\<lparr>cwd = ''/home/user'', nodes = [''/home/user/.fabricrc'' \<mapsto> File ?text]\<rparr>"
  have p: "os_path_abspath ?fs ''/home/user/.fabricrc'' = ''/home/user/.fabricrc''"
    by code_simp
  then have f: "nodes ?fs (os_path_abspath ?fs ''/home/user/.fabricrc'') = Some (File ?text)"
    by simp
  have l: "file_lines ?text = [''#x'' @ [CHR 0x0A], ''user = bob'' @ [CHR 0x0A]]"
    by code_simp
  have k: "strip (takeWhile (\<lambda>c. c \<noteq> CHR ''='') (''user = bob'' @ [CHR 0x0A])) = ''user''"
    by code_simp
  have n: "strip (''user = bob'' @ [CHR 0x0A]) \<noteq> []"
    by code_simp
  have h: "\<not> startswith (''user = bob'' @ [CHR 0x0A]) ''#''"
    by code_simp
  from comment_lines_ignored[OF f] obtain m where
    m: "load_settings ?fs ''/home/user/.fabricrc'' = Inr (Some m)" and
    c: "\<forall>s \<in> set (file_lines ?text). \<not> startswith s ''#'' \<and> strip s \<noteq> [] \<longrightarrow>
             strip (takeWhile (\<lambda>c. c \<noteq> CHR ''='') s) \<in> dom m"
    by blast
  from c l have "\<not> startswith (''user = bob'' @ [CHR 0x0A]) ''#'' \<and> strip (''user = bob'' @ [CHR 0x0A]) \<noteq> [] \<longrightarrow>
             strip (takeWhile (\<lambda>c. c \<noteq> CHR ''='') (''user = bob'' @ [CHR 0x0A])) \<in> dom m"
    by simp
  with k n h have "''user'' \<in> dom m" by simp
  with f m show ?thesis by blast
qed

text \<open>
  The claim as stated says that a line whose first non-whitespace character is \<open>#\<close> is
  ignored. The line \<open> # note\<close>, with a space in front, is not: it gives the key
  \<open># note\<close>.
\<close>

theorem indented_comment_counterexample:
  "load_settings \<lparr>cwd = ''/home/user'',
        nodes = [''/home/user/.fabricrc'' \<mapsto> File ('' # note'' @ [CHR 0x0A] @ ''user = bob'' @ [CHR 0x0A])]\<rparr>
      ''/home/user/.fabricrc''
     = Inr (Some [''# note'' \<mapsto> [], ''user'' \<mapsto> ''bob''])"
proof -
  let ?text = "'' # note'' @ [CHR 0x0A] @ ''user = bob'' @ [CHR 0x0A]"
  let ?fs = "\<lparr>cwd = ''/home/user'', nodes = [''/home/user/.fabricrc'' \<mapsto> File ?text]\<rparr>"
  have p: "os_path_abspath ?fs ''/home/user/.fabricrc'' = ''/home/user/.fabricrc''"
    by code_simp
  have l: "file_lines ?text = ['' # note'' @ [CHR 0x0A], ''user = bob'' @ [CHR 0x0A]]"
    by code_simp
  have c: "comments ('' # note'' @ [CHR 0x0A])" "comments (''user = bob'' @ [CHR 0x0A])"
    by code_simp+
  have s1: "setting_of ('' # note'' @ [CHR 0x0A]) = (''# note'', [])" by code_simp
  have s2: "setting_of (''user = bob'' @ [CHR 0x0A]) = (''user'', ''bob'')" by code_simp
  show ?thesis
    by (simp add: load_settings_def os_path_exists_def open_read_def p l c s1 s2 dict_of_def
        del: append.simps)
qed

section \<open>Properties of find_fabfile\<close>

text \<open>
  The search on a small file system: from \<open>/srv/app\<close>, with a \<open>Fabfile.py\<close> in \<open>/srv\<close>,
  the loop looks in \<open>/srv/app\<close>, then in \<open>/srv\<close>, and returns the absolute path of the
  file it finds there.
\<close>

lemma find_fabfile_parent_example:
  "find_fabfile \<lparr>cwd = ''/srv/app'',
      nodes = [''/'' \<mapsto> Dir, ''/srv'' \<mapsto> Dir, ''/srv/app'' \<mapsto> Dir,
               ''/srv/Fabfile.py'' \<mapsto> File []]\<rparr>
   = Some (Some ''/srv/Fabfile.py'')"
  by code_simp

text \<open>
  C9. The claim, like the docstring of \<open>find_fabfile\<close>, says that the current directory and
  then each parent directory in turn is searched, and that the first match is returned. The
  loop condition is tested before the body: when the directory reached is the root, whose
  last component is empty, the loop ends and the root is never looked at. With
  \<open>/fabfile.py\<close> present, \<open>find_fabfile\<close> returns \<open>None\<close> when called in \<open>/srv\<close>, and also
  when called in \<open>/\<close> itself, where the file is in the current directory.
\<close>

theorem find_fabfile_skips_root:
  "find_fabfile \<lparr>cwd = ''/srv'',
      nodes = [''/'' \<mapsto> Dir, ''/srv'' \<mapsto> Dir, ''/fabfile.py'' \<mapsto> File []]\<rparr> = Some None
   \<and> find_fabfile \<lparr>cwd = ''/'',
      nodes = [''/'' \<mapsto> Dir, ''/srv'' \<mapsto> Dir, ''/fabfile.py'' \<mapsto> File []]\<rparr> = Some None"
  by code_simp

section \<open>Properties of load_fabfile\<close>

text \<open>
  C4, as the code has it. \<open>load_fabfile\<close> has no \<open>try\<close>: the statement \<open>del sys.path[0]\<close>
  comes after the import and is reached only when the import returns. When the directory of
  the fabfile is not on \<open>sys.path\<close>, the import runs with the directory put in front. If
  the import returns and leaves \<open>sys.path\<close> as it found it, the directory is removed again:
  the function returns the callables of the module and \<open>sys.path\<close> is what it was before the
  call. If the import raises, the exception leaves \<open>load_fabfile\<close> and \<open>sys.path\<close> stays as
  the import left it, with the directory still in front when the import did not touch it.
\<close>

theorem load_fabfile_sys_path:
  "os_path_split path = (directory, fabfile) \<Longrightarrow> directory \<notin> set sys_path \<Longrightarrow>
     (imp (fst (os_path_splitext fabfile)) (directory # sys_path) = (Inr m, directory # sys_path) \<longrightarrow>
        load_fabfile imp sys_path path
          = (Inr (\<lambda>n. case m n of Some x \<Rightarrow> if callable x then Some x else None | None \<Rightarrow> None),
             sys_path))
   \<and> (imp (fst (os_path_splitext fabfile)) (directory # sys_path) = (Inl e, sys_path2) \<longrightarrow>
        load_fabfile imp sys_path path = (Inl e, sys_path2))
   \<and> (imp (fst (os_path_splitext fabfile)) (directory # sys_path) = (Inl e, directory # sys_path) \<longrightarrow>
        snd (load_fabfile imp sys_path path) = directory # sys_path
        \<and> snd (load_fabfile imp sys_path path) \<noteq> sys_path)"
  by (simp add: load_fabfile_def)

theorem load_fabfile_sys_path_witness:
  "os_path_split ''/srv/app/fabfile.py'' = (''/srv/app'', ''fabfile.py'')
   \<and> ''/srv/app'' \<notin> set [''/usr/lib/python2.5'']
   \<and> load_fabfile (\<lambda>name sys_path. (if name = ''fabfile'' \<and> ''/srv/app'' \<in> set sys_path
                                       then Inr [''deploy'' \<mapsto> Callable 0, ''hosts'' \<mapsto> NonCallable 1]
                                       else Inl ImportError, sys_path))
        [''/usr/lib/python2.5''] ''/srv/app/fabfile.py''
       = (Inr (\<lambda>n. case [''deploy'' \<mapsto> Callable 0, ''hosts'' \<mapsto> NonCallable 1] n of
                     Some x \<Rightarrow> if callable x then Some x else None | None \<Rightarrow> None),
          [''/usr/lib/python2.5''])
   \<and> snd (load_fabfile (\<lambda>name sys_path. (Inl ImportError, sys_path))
        [''/usr/lib/python2.5''] ''/srv/app/fabfile.py'') = [''/srv/app'', ''/usr/lib/python2.5'']"
proof -
  have sp: "os_path_split ''/srv/app/fabfile.py'' = (''/srv/app'', ''fabfile.py'')" by code_simp
  have ext: "os_path_splitext ''fabfile.py'' = (''fabfile'', ''.py'')" by code_simp
  have ni: "''/srv/app'' \<notin> set [''/usr/lib/python2.5'']" by simp
  let ?imp = "\<lambda>(name::string) (sys_path::string list).
      (if name = ''fabfile'' \<and> ''/srv/app'' \<in> set sys_path
       then Inr [''deploy'' \<mapsto> Callable 0, ''hosts'' \<mapsto> NonCallable 1]
       else (Inl ImportError :: exn + pymodule), sys_path)"
  let ?bad = "\<lambda>(name::string) (sys_path::string list). ((Inl ImportError :: exn + pymodule), sys_path)"
  from load_fabfile_sys_path[OF sp ni, of ?imp "[''deploy'' \<mapsto> Callable 0, ''hosts'' \<mapsto> NonCallable 1]"]
    load_fabfile_sys_path[OF sp ni, of ?bad _ ImportError "[''/srv/app'', ''/usr/lib/python2.5'']"]
    sp ext
  show ?thesis by simp
qed

text \<open>
  The claim as stated says that the directory is removed also when the import raises. With
  an import that raises \<open>ImportError\<close> the directory \<open>/srv/app\<close> is still the first entry
  of \<open>sys.path\<close> after the call.
\<close>

theorem import_failure_counterexample:
  "load_fabfile (\<lambda>name sys_path. (Inl ImportError, sys_path)) [''/usr/lib/python2.5'']
     ''/srv/app/fabfile.py'' = (Inl ImportError, [''/srv/app'', ''/usr/lib/python2.5''])"
proof -
  have "os_path_split ''/srv/app/fabfile.py'' = (''/srv/app'', ''fabfile.py'')" by code_simp
  then show ?thesis by (simp add: load_fabfile_def)
qed

end
